theory Spec2Isabelle
  imports Main
begin

section \<open>Errors and panics\<close>

text \<open>
  The error values of the packages \<open>dispatcher\<close> and \<open>requester\<close>. An error built with
  \<open>fmt.Errorf("%w: ...", ErrX, ...)\<close> is the wrapped sentinel \<open>ErrX\<close> together with
  the values formatted into its message.
\<close>

datatype invalid_value =
    MaxIterLessThanOne int
  | MaxIterLessThanNumWorker int int
  | CallbackNil

datatype error =
    ErrInvalidValue invalid_value
  | ErrRequest string
  | ErrConnection string
  | ErrRequestBody
  | Canceled
  | DeadlineExceeded
  | TransportError string

datatype panic =
    InvalidNumWorker int
  | SemaphoreReleasedMoreThanHeld
  | NegativeWaitGroupCounter

section \<open>Package dispatcher\<close>

text \<open>
  \<open>semaphore.Weighted\<close> of golang.org/x/sync: a fixed size and the number of units
  currently held. The dispatcher holds a pointer to it; the value pointed to lives in the
  state of a run (below).
\<close>

record weighted =
  sem_size :: int
  sem_cur :: int

definition NewWeighted :: "int \<Rightarrow> weighted" where
  "NewWeighted n = \<lparr>sem_size = n, sem_cur = 0\<rparr>"

record dispatcher =
  numWorker :: int
  sem :: weighted

text \<open>\<open>New\<close>: panics when \<open>numWorker < 1\<close>, else builds the semaphore and the dispatcher.\<close>

definition New :: "int \<Rightarrow> panic + dispatcher" where
  "New n =
     (if n < 1 then Inl (InvalidNumWorker n)
      else Inr \<lparr>numWorker = n, sem = NewWeighted n\<rparr>)"

text \<open>
  \<open>validate\<close>: the three checks in the order of the source. The callback is
  \<open>None\<close> when it is nil. The second message receives its arguments in the order
  \<open>maxIter, d.numWorker\<close>.
\<close>

definition validate :: "dispatcher \<Rightarrow> int \<Rightarrow> 'cb option \<Rightarrow> error option" where
  "validate d maxIter callback =
     (if maxIter < 1 then Some (ErrInvalidValue (MaxIterLessThanOne maxIter))
      else if maxIter < numWorker d
        then Some (ErrInvalidValue (MaxIterLessThanNumWorker maxIter (numWorker d)))
      else if callback = None then Some (ErrInvalidValue CallbackNil)
      else None)"

subsection \<open>A run of \<open>Do\<close> as a transition system\<close>

text \<open>
  \<open>Do\<close> starts goroutines, so a run is an interleaving of the steps of the calling
  goroutine and of the workers. The program points of the caller:
  \<^item> \<open>AtValidate\<close>: before \<open>d.validate(maxIter, callback)\<close>;
  \<^item> \<open>AtLoopHead\<close>: before the test \<open>i < maxIter || maxIter == 0\<close> and \<open>wg.Add(1)\<close>;
  \<^item> \<open>AtAcquire\<close>: in \<open>d.sem.Acquire(ctx, 1)\<close>;
  \<^item> \<open>AtAcquireErr\<close>: \<open>Acquire\<close> returned the context's error, before \<open>wg.Done()\<close> and \<open>break\<close>;
  \<^item> \<open>AtGo\<close>: \<open>Acquire\<close> returned nil, before the \<open>go\<close> statement and \<open>i++\<close>;
  \<^item> \<open>AtWait\<close>: in \<open>wg.Wait()\<close>;
  \<^item> \<open>Returned err\<close>: \<open>Do\<close> has returned \<open>err\<close>;
  \<^item> \<open>Panicked p\<close>: a goroutine has panicked, which ends the process.
\<close>

datatype pc =
    AtValidate
  | AtLoopHead
  | AtAcquire
  | AtAcquireErr
  | AtGo
  | AtWait
  | Returned "error option"
  | Panicked panic

text \<open>
  Every worker runs the same closure, so the workers are counted by program point:
  \<open>spawned\<close> (started by \<open>go\<close>, \<open>callback()\<close> not yet entered), \<open>running\<close> (inside
  \<open>callback()\<close>), \<open>deferred\<close> (\<open>callback()\<close> returned, \<open>d.sem.Release(1)\<close> pending),
  \<open>released\<close> (\<open>wg.Done()\<close> pending) and \<open>finished\<close>. \<open>sem_st\<close> is the semaphore the
  dispatcher points to, \<open>wg_count\<close> the counter of the WaitGroup, \<open>loop_i\<close> the loop
  variable \<open>i\<close>, \<open>ctx_done\<close> whether the context is done.

  The integers of the model are unbounded. The loop variable is a 64-bit \<open>int\<close> that
  never exceeds \<open>maxIter\<close> once \<open>validate\<close> has passed (lemma \<open>ctl_ok_loop_i_le\<close>), so
  \<open>i++\<close> does not wrap. The limits of the machine (memory for the goroutines, the width
  of the counter of the WaitGroup) are outside the model.
\<close>

record run =
  main_pc :: pc
  loop_i :: int
  sem_st :: weighted
  wg_count :: int
  ctx_done :: bool
  spawned :: nat
  running :: nat
  deferred :: nat
  released :: nat
  finished :: nat

definition init_run :: "dispatcher \<Rightarrow> run" where
  "init_run d =
     \<lparr>main_pc = AtValidate, loop_i = 0, sem_st = sem d, wg_count = 0, ctx_done = False,
      spawned = 0, running = 0, deferred = 0, released = 0, finished = 0\<rparr>"

text \<open>
  The events of a run. \<open>MainStep\<close>: the caller executes its next statement (in
  \<open>Acquire\<close>: it obtains a unit, which needs a free one; in \<open>wg.Wait()\<close>: the counter is
  zero). \<open>AcquireCtxErr\<close>: \<open>Acquire\<close> returns the error of the context, which needs the
  context to be done. \<open>CtxDone\<close>: the context becomes done (deadline or cancel).
  \<open>CallbackEnter\<close>, \<open>CallbackReturn\<close>, \<open>SemRelease\<close>, \<open>WgDone\<close>: one worker at the
  corresponding point executes its next statement.

  When the context is done and a unit is free, \<open>MainStep\<close> and \<open>AcquireCtxErr\<close> are both
  enabled in \<open>Acquire\<close>: which of the two the semaphore takes depends on its version and
  on the race between the context and a release. A callback that never returns is a run
  without its \<open>CallbackReturn\<close> event.
\<close>

datatype event =
    MainStep
  | AcquireCtxErr
  | CtxDone
  | CallbackEnter
  | CallbackReturn
  | SemRelease
  | WgDone

text \<open>\<open>Release(1)\<close> of the semaphore panics when more is released than held.\<close>

definition sem_release :: "run \<Rightarrow> run" where
  "sem_release s =
     (let c = sem_cur (sem_st s) - 1
      in if c < 0 then s\<lparr>main_pc := Panicked SemaphoreReleasedMoreThanHeld\<rparr>
         else s\<lparr>sem_st := (sem_st s)\<lparr>sem_cur := c\<rparr>\<rparr>)"

text \<open>\<open>wg.Done()\<close> panics when the counter becomes negative.\<close>

definition wg_done :: "run \<Rightarrow> run" where
  "wg_done s =
     (let c = wg_count s - 1
      in if c < 0 then s\<lparr>main_pc := Panicked NegativeWaitGroupCounter\<rparr>
         else s\<lparr>wg_count := c\<rparr>)"

definition halted :: "run \<Rightarrow> bool" where
  "halted s = (case main_pc s of Panicked p \<Rightarrow> True | _ \<Rightarrow> False)"

text \<open>The next statement of the caller; \<open>None\<close> when it is blocked or has returned.\<close>

definition main_step :: "dispatcher \<Rightarrow> int \<Rightarrow> 'cb option \<Rightarrow> run \<Rightarrow> run option" where
  "main_step d maxIter callback s =
     (case main_pc s of
        AtValidate \<Rightarrow>
          (case validate d maxIter callback of
             Some err \<Rightarrow> Some (s\<lparr>main_pc := Returned (Some err)\<rparr>)
           | None \<Rightarrow> Some (s\<lparr>main_pc := AtLoopHead\<rparr>))
      | AtLoopHead \<Rightarrow>
          (if loop_i s < maxIter \<or> maxIter = 0
           then Some (s\<lparr>wg_count := wg_count s + 1, main_pc := AtAcquire\<rparr>)
           else Some (s\<lparr>main_pc := AtWait\<rparr>))
      | AtAcquire \<Rightarrow>
          (if sem_size (sem_st s) - sem_cur (sem_st s) \<ge> 1
           then Some (s\<lparr>sem_st := (sem_st s)\<lparr>sem_cur := sem_cur (sem_st s) + 1\<rparr>,
                        main_pc := AtGo\<rparr>)
           else None)
      | AtAcquireErr \<Rightarrow>
          (let s1 = wg_done s in if halted s1 then Some s1 else Some (s1\<lparr>main_pc := AtWait\<rparr>))
      | AtGo \<Rightarrow>
          Some (s\<lparr>spawned := spawned s + 1, loop_i := loop_i s + 1, main_pc := AtLoopHead\<rparr>)
      | AtWait \<Rightarrow>
          (if wg_count s = 0 then Some (s\<lparr>main_pc := Returned None\<rparr>) else None)
      | Returned err \<Rightarrow> None
      | Panicked p \<Rightarrow> None)"

text \<open>
  One event; \<open>None\<close> when the event is not enabled in the state. After a panic nothing
  runs. The context becomes done at most once.
\<close>

definition step :: "dispatcher \<Rightarrow> int \<Rightarrow> 'cb option \<Rightarrow> event \<Rightarrow> run \<Rightarrow> run option" where
  "step d maxIter callback e s =
     (if halted s then None
      else case e of
        MainStep \<Rightarrow> main_step d maxIter callback s
      | AcquireCtxErr \<Rightarrow>
          (if main_pc s = AtAcquire \<and> ctx_done s then Some (s\<lparr>main_pc := AtAcquireErr\<rparr>)
           else None)
      | CtxDone \<Rightarrow> (if ctx_done s then None else Some (s\<lparr>ctx_done := True\<rparr>))
      | CallbackEnter \<Rightarrow>
          (if 0 < spawned s
           then Some (s\<lparr>spawned := spawned s - 1, running := running s + 1\<rparr>)
           else None)
      | CallbackReturn \<Rightarrow>
          (if 0 < running s
           then Some (s\<lparr>running := running s - 1, deferred := deferred s + 1\<rparr>)
           else None)
      | SemRelease \<Rightarrow>
          (if 0 < deferred s
           then Some (sem_release (s\<lparr>deferred := deferred s - 1, released := released s + 1\<rparr>))
           else None)
      | WgDone \<Rightarrow>
          (if 0 < released s
           then Some (wg_done (s\<lparr>released := released s - 1, finished := finished s + 1\<rparr>))
           else None))"

text \<open>A run: a sequence of events, each enabled where it happens.\<close>

fun exec :: "dispatcher \<Rightarrow> int \<Rightarrow> 'cb option \<Rightarrow> event list \<Rightarrow> run \<Rightarrow> run option" where
  "exec d maxIter callback [] s = Some s"
| "exec d maxIter callback (e # es) s =
     (case step d maxIter callback e s of
        None \<Rightarrow> None
      | Some s' \<Rightarrow> exec d maxIter callback es s')"

text \<open>The callback invocations that have started, and those that have returned.\<close>

definition started :: "run \<Rightarrow> nat" where
  "started s = running s + deferred s + released s + finished s"

definition completed :: "run \<Rightarrow> nat" where
  "completed s = deferred s + released s + finished s"

definition created :: "run \<Rightarrow> nat" where
  "created s = spawned s + started s"

section \<open>Package requester: the record store\<close>

record Record =
  Time :: int
  Code :: int
  Bytes :: int
  Error :: "error option"
  Events :: "string list"

record RunnerOptions =
  Requests :: int
  Concurrency :: int
  GlobalTimeout :: int
  Interval :: int

record Requester =
  records :: "Record list"
  numErr :: int
  runErr :: "error option"
  done_flag :: bool
  config :: RunnerOptions

text \<open>\<open>requester.New\<close>: an empty record slice (its capacity is not observable) and zero values.\<close>

definition NewRequester :: "RunnerOptions \<Rightarrow> Requester" where
  "NewRequester cfg = \<lparr>records = [], numErr = 0, runErr = None, done_flag = False, config = cfg\<rparr>"

text \<open>
  \<open>appendRecord\<close> runs under the mutex \<open>r.mu\<close>, so concurrent calls take effect one
  after the other: a sequence of calls is a left fold.
\<close>

definition appendRecord :: "Requester \<Rightarrow> Record \<Rightarrow> Requester" where
  "appendRecord r rec =
     (let r1 = r\<lparr>records := records r @ [rec]\<rparr>
      in if Error rec \<noteq> None then r1\<lparr>numErr := numErr r1 + 1\<rparr> else r1)"

definition appendAll :: "Requester \<Rightarrow> Record list \<Rightarrow> Requester" where
  "appendAll r recs = foldl appendRecord r recs"

section \<open>Package requester: one attempt\<close>

text \<open>
  What the closure needs of \<open>http.Request\<close>: its body (nil or not) and what
  \<open>req.GetBody()\<close> returns.
\<close>

record http_request =
  Body :: "string option"
  GetBody :: "error + string"

definition cloneRequest :: "http_request \<Rightarrow> error + http_request" where
  "cloneRequest req =
     (if Body req \<noteq> None then
        (case GetBody req of
           Inl err \<Rightarrow> Inl ErrRequestBody
         | Inr bodyClone \<Rightarrow> Inr (req\<lparr>Body := Some bodyClone\<rparr>))
      else Inr req)"

text \<open>
  What the outside world answers to one attempt: the result of \<open>r.client.Do(reqClone)\<close>
  (an error, or a response with its status code and the result of reading its body), the
  time measured by \<open>time.Since(sent)\<close> and the events of the tracer.
\<close>

record response =
  StatusCode :: int
  ReadAll :: "error + string"

record attempt =
  client_Do :: "error + response"
  since_sent :: int
  tracer_events :: "string list"

text \<open>The effects of the closure that are visible from outside, in the order they happen.\<close>

datatype effect =
    Appended Record
  | BodyClosed
  | PrintedState
  | Slept int

definition failure_Record :: "error \<Rightarrow> Record" where
  "failure_Record err = \<lparr>Time = 0, Code = 0, Bytes = 0, Error = Some err, Events = []\<rparr>"

text \<open>
  The closure returned by \<open>r.record(req, interval)\<close>, run on one attempt: the new state
  of the Requester and the trace of effects. The deferred \<open>resp.Body.Close()\<close> runs when
  the closure returns, hence last.
\<close>

definition record_closure ::
    "http_request \<Rightarrow> int \<Rightarrow> attempt \<Rightarrow> Requester \<Rightarrow> Requester \<times> effect list" where
  "record_closure req interval a r =
     (case cloneRequest req of
        Inl err \<Rightarrow>
          (appendRecord r (failure_Record ErrRequestBody),
           [Appended (failure_Record ErrRequestBody)])
      | Inr reqClone \<Rightarrow>
          (case client_Do a of
             Inl err \<Rightarrow>
               (appendRecord r (failure_Record err), [Appended (failure_Record err)])
           | Inr resp \<Rightarrow>
               (case ReadAll resp of
                  Inl err \<Rightarrow>
                    (appendRecord r (failure_Record err),
                     [Appended (failure_Record err), BodyClosed])
                | Inr body \<Rightarrow>
                    (let rec = \<lparr>Time = since_sent a, Code = StatusCode resp,
                                Bytes = int (length body), Error = None,
                                Events = tracer_events a\<rparr>
                     in (appendRecord r rec,
                         [Appended rec, PrintedState, Slept interval, BodyClosed])))))"

text \<open>The attempts of a dispatch, in the order in which their closures take the mutex.\<close>

fun run_attempts :: "http_request \<Rightarrow> int \<Rightarrow> attempt list \<Rightarrow> Requester \<Rightarrow> Requester" where
  "run_attempts req interval [] r = r"
| "run_attempts req interval (a # as) r =
     run_attempts req interval as (fst (record_closure req interval a r))"

section \<open>Package requester: \<open>Run\<close>\<close>

text \<open>
  The value \<open>Do\<close> returns when it returns: the error of \<open>validate\<close>, else nil (the last
  statement of \<open>Do\<close>). Lemma \<open>exec_Returned_Do_result\<close> below shows that every run of the
  transition system that returns, returns this value.
\<close>

definition Do_result :: "dispatcher \<Rightarrow> int \<Rightarrow> 'cb option \<Rightarrow> error option" where
  "Do_result d maxIter callback =
     (case validate d maxIter callback of Some err \<Rightarrow> Some err | None \<Rightarrow> None)"

text \<open>
  The Report that \<open>Run\<close> returns is either the zero value \<open>Report{}\<close> or the value of
  \<open>makeReport(r.config, r.records, r.numErr)\<close>. The body of \<open>makeReport\<close> is not among
  the sources, so the model keeps the arguments of the call.
\<close>

datatype report_value =
    ZeroReport
  | MakeReport RunnerOptions "Record list" int

datatype run_result =
    Panics panic
  | Returns report_value "error option"

text \<open>
  What the outside world answers to \<open>Run\<close>: the result of \<open>r.config.HTTPRequest()\<close>
  (the text of its error, or the request), the error of the pre-flight \<open>r.ping(req)\<close>
  if any, and the attempts the dispatcher runs.
\<close>

record run_env =
  HTTPRequest :: "string + http_request"
  ping :: "string option"
  attempts :: "attempt list"

text \<open>
  \<open>Run\<close>, statement by statement. The goroutine that prints the state every second
  only prints. The \<open>switch\<close> on \<open>r.runErr\<close> lets nil, \<open>context.Canceled\<close> and
  \<open>context.DeadlineExceeded\<close> through and returns any other error.
\<close>

definition Run :: "Requester \<Rightarrow> run_env \<Rightarrow> run_result" where
  "Run r env =
     (case HTTPRequest env of
        Inl msg \<Rightarrow> Returns ZeroReport (Some (ErrRequest msg))
      | Inr req \<Rightarrow>
          (case ping env of
             Some msg \<Rightarrow> Returns ZeroReport (Some (ErrConnection msg))
           | None \<Rightarrow>
               (case New (Concurrency (config r)) of
                  Inl p \<Rightarrow> Panics p
                | Inr d \<Rightarrow>
                    (let maxIter = Requests (config r);
                         interval = Interval (config r);
                         callback = Some (record_closure req interval);
                         err = Do_result d maxIter callback;
                         r1 = (if err = None then run_attempts req interval (attempts env) r
                               else r);
                         r2 = r1\<lparr>runErr := err\<rparr>
                     in if runErr r2 = None \<or> runErr r2 = Some Canceled
                           \<or> runErr r2 = Some DeadlineExceeded
                        then (let r3 = r2\<lparr>done_flag := True\<rparr>
                              in Returns (MakeReport (config r3) (records r3) (numErr r3)) None)
                        else Returns ZeroReport (runErr r2)))))"

definition is_connectivity_failure :: "error \<Rightarrow> bool" where
  "is_connectivity_failure err = (case err of ErrConnection msg \<Rightarrow> True | _ \<Rightarrow> False)"

definition is_validation_failure :: "error \<Rightarrow> bool" where
  "is_validation_failure err = (case err of ErrInvalidValue v \<Rightarrow> True | _ \<Rightarrow> False)"

definition is_request_failure :: "error \<Rightarrow> bool" where
  "is_request_failure err = (case err of ErrRequest msg \<Rightarrow> True | _ \<Rightarrow> False)"

section \<open>Package request: the report builder\<close>

record Report =
  Records :: "Record list"
  Length :: int
  Success :: int
  Fail :: int

definition emptyReport :: Report where
  "emptyReport = \<lparr>Records = [], Length = 0, Success = 0, Fail = 0\<rparr>"

text \<open>One iteration of the \<open>range\<close> loop of \<open>Collect\<close>.\<close>

definition collectStep :: "Report \<Rightarrow> Record \<Rightarrow> Report" where
  "collectStep rep rec =
     (let rep1 = (if Error rec \<noteq> None then rep\<lparr>Fail := Fail rep + 1\<rparr>
                  else rep\<lparr>Records := Records rep @ [rec]\<rparr>)
      in rep1\<lparr>Length := Length rep1 + 1\<rparr>)"

text \<open>
  \<open>Collect\<close>: the loop over the records received from the channel, then the assignment
  \<open>rep.Length = len(rep.Records)\<close>.
\<close>

definition Collect :: "Record list \<Rightarrow> Report" where
  "Collect recs =
     (let rep = foldl collectStep emptyReport recs
      in rep\<lparr>Length := int (length (Records rep))\<rparr>)"

definition failed :: "Record \<Rightarrow> bool" where
  "failed rec = (Error rec \<noteq> None)"

section \<open>Invariants of a run\<close>

text \<open>
  The units of the semaphore and of the WaitGroup that the caller itself accounts for: at
  \<open>AtGo\<close> it holds a unit for the worker it is about to start; from \<open>wg.Add(1)\<close> until
  the \<open>go\<close> statement or \<open>wg.Done()\<close> the WaitGroup counts one for the caller.
\<close>

definition holds_unit :: "pc \<Rightarrow> int" where
  "holds_unit p = (if p = AtGo then 1 else 0)"

definition wg_pending :: "pc \<Rightarrow> int" where
  "wg_pending p = (if p = AtAcquire \<or> p = AtAcquireErr \<or> p = AtGo then 1 else 0)"

text \<open>
  What holds of the loop variable and of the context at each program point of the caller.
\<close>

definition ctl_ok :: "dispatcher \<Rightarrow> int \<Rightarrow> 'cb option \<Rightarrow> pc \<Rightarrow> int \<Rightarrow> bool \<Rightarrow> bool" where
  "ctl_ok d maxIter callback p i c =
     (case p of
        AtValidate \<Rightarrow> i = 0
      | Returned (Some err) \<Rightarrow> i = 0 \<and> validate d maxIter callback = Some err
      | Returned None \<Rightarrow>
          validate d maxIter callback = None \<and> i \<le> maxIter \<and> (\<not> c \<longrightarrow> i = maxIter)
      | AtWait \<Rightarrow>
          validate d maxIter callback = None \<and> i \<le> maxIter \<and> (\<not> c \<longrightarrow> i = maxIter)
      | AtLoopHead \<Rightarrow> validate d maxIter callback = None \<and> i \<le> maxIter
      | AtAcquire \<Rightarrow> validate d maxIter callback = None \<and> i < maxIter
      | AtGo \<Rightarrow> validate d maxIter callback = None \<and> i < maxIter
      | AtAcquireErr \<Rightarrow> validate d maxIter callback = None \<and> i < maxIter \<and> c
      | Panicked p \<Rightarrow> False)"

definition ctl_inv :: "dispatcher \<Rightarrow> int \<Rightarrow> 'cb option \<Rightarrow> run \<Rightarrow> bool" where
  "ctl_inv d maxIter callback s =
     ctl_ok d maxIter callback (main_pc s) (loop_i s) (ctx_done s)"

text \<open>
  The semaphore counts the workers that have not released yet, the WaitGroup those that
  have not called \<open>wg.Done()\<close>, and \<open>i\<close> the workers started so far.
\<close>

definition count_inv :: "dispatcher \<Rightarrow> run \<Rightarrow> bool" where
  "count_inv d s =
     (sem_size (sem_st s) = numWorker d \<and>
      sem_cur (sem_st s) = int (spawned s + running s + deferred s) + holds_unit (main_pc s) \<and>
      sem_cur (sem_st s) \<le> sem_size (sem_st s) \<and>
      wg_count s =
        int (spawned s + running s + deferred s + released s) + wg_pending (main_pc s) \<and>
      loop_i s = int (created s))"

definition run_inv :: "dispatcher \<Rightarrow> int \<Rightarrow> 'cb option \<Rightarrow> run \<Rightarrow> bool" where
  "run_inv d maxIter callback s = (ctl_inv d maxIter callback s \<and> count_inv d s)"

definition quiescent :: "run \<Rightarrow> bool" where
  "quiescent s = (spawned s = 0 \<and> running s = 0 \<and> deferred s = 0 \<and> released s = 0)"


definition is_Returned :: "pc \<Rightarrow> bool" where
  "is_Returned p = (case p of Returned err \<Rightarrow> True | _ \<Rightarrow> False)"

text \<open>
  A bound on the number of events left: four statements per worker, three statements of
  the caller per iteration, and the context becoming done.
\<close>

definition main_fuel :: "int \<Rightarrow> pc \<Rightarrow> int \<Rightarrow> nat" where
  "main_fuel maxIter p i =
     (case p of
        AtValidate \<Rightarrow> 7 * nat maxIter + 3
      | AtLoopHead \<Rightarrow> 7 * nat (maxIter - i) + 2
      | AtAcquire \<Rightarrow> 7 * nat (maxIter - i) + 1
      | AtGo \<Rightarrow> 7 * nat (maxIter - i)
      | AtAcquireErr \<Rightarrow> 2
      | AtWait \<Rightarrow> 1
      | Returned err \<Rightarrow> 0
      | Panicked p \<Rightarrow> 0)"

definition fuel :: "int \<Rightarrow> run \<Rightarrow> nat" where
  "fuel maxIter s =
     main_fuel maxIter (main_pc s) (loop_i s) +
     4 * spawned s + 3 * running s + 2 * deferred s + released s +
     (if ctx_done s then 0 else 1)"

section \<open>Every reachable state satisfies the invariants\<close>

lemma run_inv_init: "New W = Inr d \<Longrightarrow> run_inv d maxIter callback (init_run d)"
  by (auto simp: run_inv_def ctl_inv_def ctl_ok_def count_inv_def init_run_def New_def NewWeighted_def
      holds_unit_def wg_pending_def created_def started_def split: if_splits)

lemma validate_None_iff:
  "validate d maxIter callback = None \<longleftrightarrow>
   1 \<le> maxIter \<and> numWorker d \<le> maxIter \<and> callback \<noteq> None"
  by (auto simp: validate_def split: if_splits)

lemma ctl_inv_not_halted: "ctl_inv d maxIter callback s \<Longrightarrow> \<not> halted s"
  by (auto simp: ctl_inv_def ctl_ok_def halted_def split: pc.splits)

lemma ctl_inv_cong:
  "main_pc s' = main_pc s \<Longrightarrow> loop_i s' = loop_i s \<Longrightarrow> ctx_done s' = ctx_done s \<Longrightarrow>
   ctl_inv d maxIter callback s' = ctl_inv d maxIter callback s"
  by (simp add: ctl_inv_def)

lemma run_inv_main_step:
  assumes "run_inv d maxIter callback s" "main_step d maxIter callback s = Some s'"
  shows "run_inv d maxIter callback s'"
proof (cases "main_pc s")
  case AtValidate
  with assms show ?thesis
    by (auto simp: run_inv_def ctl_inv_def ctl_ok_def count_inv_def main_step_def holds_unit_def
        wg_pending_def created_def started_def validate_None_iff split: option.splits)
next
  case AtLoopHead
  with assms show ?thesis
    by (auto simp: run_inv_def ctl_inv_def ctl_ok_def count_inv_def main_step_def holds_unit_def
        wg_pending_def created_def started_def validate_None_iff split: if_splits)
next
  case AtAcquire
  with assms show ?thesis
    by (auto simp: run_inv_def ctl_inv_def ctl_ok_def count_inv_def main_step_def holds_unit_def
        wg_pending_def created_def started_def split: if_splits)
next
  case AtAcquireErr
  with assms show ?thesis
    by (auto simp: run_inv_def ctl_inv_def ctl_ok_def count_inv_def main_step_def holds_unit_def
        wg_pending_def wg_done_def Let_def halted_def created_def started_def split: if_splits)
next
  case AtGo
  with assms show ?thesis
    by (auto simp: run_inv_def ctl_inv_def ctl_ok_def count_inv_def main_step_def holds_unit_def
        wg_pending_def created_def started_def split: if_splits)
next
  case AtWait
  with assms show ?thesis
    by (auto simp: run_inv_def ctl_inv_def ctl_ok_def count_inv_def main_step_def holds_unit_def
        wg_pending_def created_def started_def split: if_splits)
next
  case (Returned x)
  with assms show ?thesis by (simp add: main_step_def)
next
  case (Panicked x)
  with assms show ?thesis by (simp add: main_step_def)
qed

lemma holds_unit_bounds: "0 \<le> holds_unit p" "holds_unit p \<le> 1"
  by (simp_all add: holds_unit_def)

lemma wg_pending_nonneg: "0 \<le> wg_pending p"
  by (simp add: wg_pending_def)

lemma step_CallbackEnter:
  "step d maxIter callback CallbackEnter s = Some s' \<Longrightarrow>
   \<exists>n. spawned s = Suc n \<and> s' = s\<lparr>spawned := n, running := Suc (running s)\<rparr>"
  by (cases "spawned s") (auto simp: step_def split: if_splits)

lemma step_CallbackReturn:
  "step d maxIter callback CallbackReturn s = Some s' \<Longrightarrow>
   \<exists>n. running s = Suc n \<and> s' = s\<lparr>running := n, deferred := Suc (deferred s)\<rparr>"
  by (cases "running s") (auto simp: step_def split: if_splits)

lemma step_SemRelease:
  "step d maxIter callback SemRelease s = Some s' \<Longrightarrow>
   \<exists>n. deferred s = Suc n \<and>
       s' = sem_release (s\<lparr>deferred := n, released := Suc (released s)\<rparr>)"
  by (cases "deferred s") (auto simp: step_def split: if_splits)

lemma step_WgDone:
  "step d maxIter callback WgDone s = Some s' \<Longrightarrow>
   \<exists>n. released s = Suc n \<and>
       s' = wg_done (s\<lparr>released := n, finished := Suc (finished s)\<rparr>)"
  by (cases "released s") (auto simp: step_def split: if_splits)

lemma run_inv_CallbackEnter:
  assumes "run_inv d maxIter callback s" "step d maxIter callback CallbackEnter s = Some s'"
  shows "run_inv d maxIter callback s'"
proof -
  from assms(2) obtain n where n: "spawned s = Suc n" "s' = s\<lparr>spawned := n, running := Suc (running s)\<rparr>"
    by (auto dest: step_CallbackEnter)
  then have "ctl_inv d maxIter callback s' = ctl_inv d maxIter callback s"
    by (intro ctl_inv_cong) simp_all
  moreover from n assms(1) have "count_inv d s'"
    by (simp add: run_inv_def count_inv_def created_def started_def)
  ultimately show ?thesis using assms(1) by (simp add: run_inv_def)
qed

lemma run_inv_CallbackReturn:
  assumes "run_inv d maxIter callback s" "step d maxIter callback CallbackReturn s = Some s'"
  shows "run_inv d maxIter callback s'"
proof -
  from assms(2) obtain n where n: "running s = Suc n" "s' = s\<lparr>running := n, deferred := Suc (deferred s)\<rparr>"
    by (auto dest: step_CallbackReturn)
  then have "ctl_inv d maxIter callback s' = ctl_inv d maxIter callback s"
    by (intro ctl_inv_cong) simp_all
  moreover from n assms(1) have "count_inv d s'"
    by (simp add: run_inv_def count_inv_def created_def started_def)
  ultimately show ?thesis using assms(1) by (simp add: run_inv_def)
qed

lemma run_inv_SemRelease:
  assumes "run_inv d maxIter callback s" "step d maxIter callback SemRelease s = Some s'"
  shows "run_inv d maxIter callback s'"
proof -
  from assms(2) obtain n where n: "deferred s = Suc n"
      "s' = sem_release (s\<lparr>deferred := n, released := Suc (released s)\<rparr>)"
    by (auto dest: step_SemRelease)
  from assms(1) n(1) have cur: "sem_cur (sem_st s) - 1 \<ge> 0"
    using holds_unit_bounds(1)[of "main_pc s"] by (simp add: run_inv_def count_inv_def)
  with n(2) have s': "s' = s\<lparr>deferred := n, released := Suc (released s),
      sem_st := (sem_st s)\<lparr>sem_cur := sem_cur (sem_st s) - 1\<rparr>\<rparr>"
    by (simp add: sem_release_def Let_def)
  then have "ctl_inv d maxIter callback s' = ctl_inv d maxIter callback s"
    by (intro ctl_inv_cong) simp_all
  moreover from n(1) s' assms(1) have "count_inv d s'"
    by (simp add: run_inv_def count_inv_def created_def started_def)
  ultimately show ?thesis using assms(1) by (simp add: run_inv_def)
qed

lemma run_inv_WgDone:
  assumes "run_inv d maxIter callback s" "step d maxIter callback WgDone s = Some s'"
  shows "run_inv d maxIter callback s'"
proof -
  from assms(2) obtain n where n: "released s = Suc n"
      "s' = wg_done (s\<lparr>released := n, finished := Suc (finished s)\<rparr>)"
    by (auto dest: step_WgDone)
  from assms(1) n(1) have cur: "wg_count s - 1 \<ge> 0"
    using wg_pending_nonneg[of "main_pc s"] by (simp add: run_inv_def count_inv_def)
  with n(2) have s': "s' = s\<lparr>released := n, finished := Suc (finished s),
      wg_count := wg_count s - 1\<rparr>"
    by (simp add: wg_done_def Let_def)
  then have "ctl_inv d maxIter callback s' = ctl_inv d maxIter callback s"
    by (intro ctl_inv_cong) simp_all
  moreover from n(1) s' assms(1) cur have "count_inv d s'"
    by (auto simp: run_inv_def count_inv_def created_def started_def)
  ultimately show ?thesis using assms(1) by (simp add: run_inv_def)
qed

lemma run_inv_AcquireCtxErr:
  assumes "run_inv d maxIter callback s" "step d maxIter callback AcquireCtxErr s = Some s'"
  shows "run_inv d maxIter callback s'"
  using assms
  by (auto simp: step_def run_inv_def ctl_inv_def ctl_ok_def count_inv_def holds_unit_def wg_pending_def
      created_def started_def split: if_splits)

lemma run_inv_CtxDone:
  assumes "run_inv d maxIter callback s" "step d maxIter callback CtxDone s = Some s'"
  shows "run_inv d maxIter callback s'"
proof -
  from assms(2) have s': "s' = s\<lparr>ctx_done := True\<rparr>"
    by (auto simp: step_def split: if_splits)
  from assms(1) have "ctl_inv d maxIter callback s'" unfolding s'
    by (auto simp: run_inv_def ctl_inv_def ctl_ok_def split: pc.splits option.splits)
  moreover from assms(1) have "count_inv d s'" unfolding s'
    by (simp add: run_inv_def count_inv_def created_def started_def)
  ultimately show ?thesis by (simp add: run_inv_def)
qed

lemma run_inv_step:
  assumes "run_inv d maxIter callback s" "step d maxIter callback e s = Some s'"
  shows "run_inv d maxIter callback s'"
proof (cases e)
  case MainStep
  with assms(2) have "main_step d maxIter callback s = Some s'"
    by (simp add: step_def split: if_splits)
  with assms(1) show ?thesis by (rule run_inv_main_step)
next
  case AcquireCtxErr
  with assms show ?thesis by (simp add: run_inv_AcquireCtxErr)
next
  case CtxDone
  with assms show ?thesis by (simp add: run_inv_CtxDone)
next
  case CallbackEnter
  with assms show ?thesis by (simp add: run_inv_CallbackEnter)
next
  case CallbackReturn
  with assms show ?thesis by (simp add: run_inv_CallbackReturn)
next
  case SemRelease
  with assms show ?thesis by (simp add: run_inv_SemRelease)
next
  case WgDone
  with assms show ?thesis by (simp add: run_inv_WgDone)
qed

lemma run_inv_exec:
  "run_inv d maxIter callback s \<Longrightarrow> exec d maxIter callback evs s = Some s' \<Longrightarrow>
   run_inv d maxIter callback s'"
proof (induction evs arbitrary: s)
  case Nil
  then show ?case by simp
next
  case (Cons e evs)
  from Cons.prems(2) obtain s1 where s1: "step d maxIter callback e s = Some s1"
    "exec d maxIter callback evs s1 = Some s'"
    by (auto split: option.splits)
  from Cons.prems(1) s1(1) have "run_inv d maxIter callback s1" by (rule run_inv_step)
  then show ?case using s1(2) by (rule Cons.IH)
qed

lemma fuel_main_step:
  assumes "run_inv d maxIter callback s" "main_step d maxIter callback s = Some s'"
  shows "fuel maxIter s' < fuel maxIter s"
proof (cases "main_pc s")
  case AtValidate
  with assms show ?thesis
    by (auto simp: run_inv_def ctl_inv_def ctl_ok_def main_step_def fuel_def main_fuel_def
        split: option.splits)
next
  case AtLoopHead
  with assms show ?thesis
    by (auto simp: run_inv_def ctl_inv_def ctl_ok_def main_step_def fuel_def main_fuel_def
        validate_None_iff split: if_splits)
next
  case AtAcquire
  with assms show ?thesis
    by (auto simp: run_inv_def ctl_inv_def ctl_ok_def main_step_def fuel_def main_fuel_def
        split: if_splits)
next
  case AtAcquireErr
  with assms show ?thesis
    by (auto simp: run_inv_def ctl_inv_def ctl_ok_def main_step_def fuel_def main_fuel_def
        wg_done_def Let_def halted_def split: if_splits)
next
  case AtGo
  with assms have "loop_i s < maxIter" and s': "s' = s\<lparr>spawned := spawned s + 1, loop_i := loop_i s + 1, main_pc := AtLoopHead\<rparr>"
    by (auto simp: run_inv_def ctl_inv_def ctl_ok_def main_step_def)
  then have "nat (maxIter - loop_i s) = Suc (nat (maxIter - (loop_i s + 1)))" by simp
  with AtGo s' show ?thesis
    by (simp add: fuel_def main_fuel_def)
next
  case AtWait
  with assms show ?thesis
    by (auto simp: run_inv_def ctl_inv_def ctl_ok_def main_step_def fuel_def main_fuel_def
        split: if_splits)
next
  case (Returned x)
  with assms show ?thesis by (simp add: main_step_def)
next
  case (Panicked x)
  with assms show ?thesis by (simp add: main_step_def)
qed

lemma sem_release_ok:
  assumes "run_inv d maxIter callback s" "deferred s = Suc n"
  shows "sem_release (s\<lparr>deferred := n, released := Suc (released s)\<rparr>) =
         s\<lparr>deferred := n, released := Suc (released s),
           sem_st := (sem_st s)\<lparr>sem_cur := sem_cur (sem_st s) - 1\<rparr>\<rparr>"
proof -
  from assms have "sem_cur (sem_st s) - 1 \<ge> 0"
    using holds_unit_bounds(1)[of "main_pc s"] by (simp add: run_inv_def count_inv_def)
  then show ?thesis by (simp add: sem_release_def Let_def)
qed

lemma wg_done_ok:
  assumes "run_inv d maxIter callback s" "released s = Suc n"
  shows "wg_done (s\<lparr>released := n, finished := Suc (finished s)\<rparr>) =
         s\<lparr>released := n, finished := Suc (finished s), wg_count := wg_count s - 1\<rparr>"
proof -
  from assms have "wg_count s - 1 \<ge> 0"
    using wg_pending_nonneg[of "main_pc s"] by (simp add: run_inv_def count_inv_def)
  then show ?thesis by (simp add: wg_done_def Let_def)
qed

lemma fuel_step:
  assumes "run_inv d maxIter callback s" "step d maxIter callback e s = Some s'"
  shows "fuel maxIter s' < fuel maxIter s"
proof (cases e)
  case MainStep
  with assms(2) have "main_step d maxIter callback s = Some s'"
    by (simp add: step_def split: if_splits)
  with assms(1) show ?thesis by (rule fuel_main_step)
next
  case AcquireCtxErr
  with assms show ?thesis
    by (auto simp: step_def run_inv_def ctl_inv_def ctl_ok_def fuel_def main_fuel_def
        split: if_splits)
next
  case CtxDone
  with assms(2) show ?thesis
    by (auto simp: step_def fuel_def split: if_splits)
next
  case CallbackEnter
  with assms(2) show ?thesis
    by (auto simp: fuel_def dest!: step_CallbackEnter)
next
  case CallbackReturn
  with assms(2) show ?thesis
    by (auto simp: fuel_def dest!: step_CallbackReturn)
next
  case SemRelease
  with assms show ?thesis
    by (auto simp: fuel_def sem_release_ok dest!: step_SemRelease)
next
  case WgDone
  with assms show ?thesis
    by (auto simp: fuel_def wg_done_ok dest!: step_WgDone)
qed

lemma fuel_exec:
  "run_inv d maxIter callback s \<Longrightarrow> exec d maxIter callback evs s = Some s' \<Longrightarrow>
   fuel maxIter s' + length evs \<le> fuel maxIter s"
proof (induction evs arbitrary: s)
  case Nil
  then show ?case by simp
next
  case (Cons e evs)
  from Cons.prems(2) obtain s1 where s1: "step d maxIter callback e s = Some s1"
    "exec d maxIter callback evs s1 = Some s'"
    by (auto split: option.splits)
  from Cons.prems(1) s1(1) have "run_inv d maxIter callback s1" by (rule run_inv_step)
  then have "fuel maxIter s' + length evs \<le> fuel maxIter s1" using s1(2) by (rule Cons.IH)
  moreover from Cons.prems(1) s1(1) have "fuel maxIter s1 < fuel maxIter s" by (rule fuel_step)
  ultimately show ?case by simp
qed

lemma progress:
  assumes "run_inv d maxIter callback s" "1 \<le> numWorker d" "\<not> is_Returned (main_pc s)"
  shows "\<exists>e s'. e \<noteq> CtxDone \<and> e \<noteq> AcquireCtxErr \<and> step d maxIter callback e s = Some s'"
proof -
  have nh: "\<not> halted s" using assms(1) by (auto simp: run_inv_def dest: ctl_inv_not_halted)
  have ms: "main_step d maxIter callback s \<noteq> None \<Longrightarrow> ?thesis"
    using nh by (intro exI[of _ MainStep]) (auto simp: step_def)
  have w1: "0 < spawned s \<Longrightarrow> ?thesis"
    using nh by (intro exI[of _ CallbackEnter]) (simp add: step_def)
  have w2: "0 < running s \<Longrightarrow> ?thesis"
    using nh by (intro exI[of _ CallbackReturn]) (simp add: step_def)
  have w3: "0 < deferred s \<Longrightarrow> ?thesis"
    using nh by (intro exI[of _ SemRelease]) (simp add: step_def)
  have w4: "0 < released s \<Longrightarrow> ?thesis"
    using nh by (intro exI[of _ WgDone]) (simp add: step_def)
  show ?thesis
  proof (cases "main_pc s")
    case AtValidate
    then show ?thesis by (intro ms) (simp add: main_step_def split: option.splits)
  next
    case AtLoopHead
    then show ?thesis by (intro ms) (simp add: main_step_def)
  next
    case AtAcquire
    show ?thesis
    proof (cases "sem_size (sem_st s) - sem_cur (sem_st s) \<ge> 1")
      case True
      with AtAcquire show ?thesis by (intro ms) (simp add: main_step_def)
    next
      case False
      with assms(1,2) AtAcquire have "0 < spawned s \<or> 0 < running s \<or> 0 < deferred s"
        by (auto simp: run_inv_def count_inv_def holds_unit_def)
      then show ?thesis using w1 w2 w3 by blast
    qed
  next
    case AtAcquireErr
    then show ?thesis by (intro ms) (simp add: main_step_def Let_def)
  next
    case AtGo
    then show ?thesis by (intro ms) (simp add: main_step_def)
  next
    case AtWait
    show ?thesis
    proof (cases "wg_count s = 0")
      case True
      with AtWait show ?thesis by (intro ms) (simp add: main_step_def)
    next
      case False
      with assms(1) AtWait
      have "0 < spawned s \<or> 0 < running s \<or> 0 < deferred s \<or> 0 < released s"
        by (auto simp: run_inv_def count_inv_def wg_pending_def)
      then show ?thesis using w1 w2 w3 w4 by blast
    qed
  next
    case (Returned x)
    with assms(3) show ?thesis by (simp add: is_Returned_def)
  next
    case (Panicked x)
    with nh show ?thesis by (simp add: halted_def)
  qed
qed

lemma exec_append:
  "exec d maxIter callback (xs @ ys) s =
     (case exec d maxIter callback xs s of None \<Rightarrow> None
      | Some s1 \<Rightarrow> exec d maxIter callback ys s1)"
  by (induction xs arbitrary: s) (auto split: option.splits)

lemma can_return:
  assumes "1 \<le> numWorker d"
  shows "run_inv d maxIter callback s \<Longrightarrow>
   \<exists>evs s'. CtxDone \<notin> set evs \<and> AcquireCtxErr \<notin> set evs \<and>
      exec d maxIter callback evs s = Some s' \<and> is_Returned (main_pc s')"
proof (induction "fuel maxIter s" arbitrary: s rule: less_induct)
  case less
  show ?case
  proof (cases "is_Returned (main_pc s)")
    case True
    then show ?thesis by (intro exI[of _ "[]"] exI[of _ s]) simp
  next
    case False
    with less.prems assms obtain e s1 where e: "e \<noteq> CtxDone" "e \<noteq> AcquireCtxErr"
      "step d maxIter callback e s = Some s1"
      using progress by blast
    from less.prems e(3) have inv1: "run_inv d maxIter callback s1" by (rule run_inv_step)
    from less.prems e(3) have "fuel maxIter s1 < fuel maxIter s" by (rule fuel_step)
    from less.hyps[OF this inv1] obtain evs s' where
      "CtxDone \<notin> set evs" "AcquireCtxErr \<notin> set evs"
      "exec d maxIter callback evs s1 = Some s'" "is_Returned (main_pc s')"
      by blast
    with e show ?thesis
      by (intro exI[of _ "e # evs"] exI[of _ s']) simp
  qed
qed

lemma New_Inr: "New W = Inr d \<Longrightarrow> numWorker d = W \<and> 1 \<le> W \<and> sem d = NewWeighted W"
  by (auto simp: New_def split: if_splits)

lemma reachable_inv:
  assumes "New W = Inr d" "exec d maxIter callback evs (init_run d) = Some s"
  shows "run_inv d maxIter callback s"
  using run_inv_init[OF assms(1)] assms(2) by (rule run_inv_exec)

lemma worker_step_pc:
  assumes "run_inv d maxIter callback s" "step d maxIter callback e s = Some s'"
    "e \<noteq> MainStep" "e \<noteq> AcquireCtxErr"
  shows "main_pc s' = main_pc s \<and> loop_i s' = loop_i s \<and> \<not> quiescent s \<or> e = CtxDone \<and> s' = s\<lparr>ctx_done := True\<rparr>"
proof (cases e)
  case CtxDone
  with assms(2) show ?thesis by (auto simp: step_def split: if_splits)
next
  case CallbackEnter
  with assms(2) show ?thesis by (auto simp: quiescent_def dest!: step_CallbackEnter)
next
  case CallbackReturn
  with assms(2) show ?thesis by (auto simp: quiescent_def dest!: step_CallbackReturn)
next
  case SemRelease
  with assms(1,2) show ?thesis by (auto simp: quiescent_def sem_release_ok dest!: step_SemRelease)
next
  case WgDone
  with assms(1,2) show ?thesis by (auto simp: quiescent_def wg_done_ok dest!: step_WgDone)
qed (use assms in simp_all)

lemma ret_inv_step:
  assumes "run_inv d maxIter callback s" "main_pc s = Returned None \<longrightarrow> quiescent s"
    "step d maxIter callback e s = Some s'"
  shows "main_pc s' = Returned None \<longrightarrow> quiescent s'"
proof (cases "e = MainStep \<or> e = AcquireCtxErr")
  case True
  then show ?thesis
  proof
    assume "e = MainStep"
    with assms(3) have ms: "main_step d maxIter callback s = Some s'"
      by (simp add: step_def split: if_splits)
    show ?thesis
    proof (cases "main_pc s")
      case AtWait
      with ms assms(1) show ?thesis
        by (auto simp: main_step_def run_inv_def count_inv_def wg_pending_def quiescent_def
            split: if_splits)
    next
      case AtAcquireErr
      with ms show ?thesis
        by (auto simp: main_step_def wg_done_def Let_def halted_def split: if_splits)
    qed (use ms in \<open>auto simp: main_step_def split: if_splits option.splits\<close>)
  next
    assume "e = AcquireCtxErr"
    with assms(3) show ?thesis by (auto simp: step_def split: if_splits)
  qed
next
  case False
  with worker_step_pc[OF assms(1,3)] assms(2) show ?thesis
    by (auto simp: quiescent_def)
qed

lemma ret_inv_exec:
  "run_inv d maxIter callback s \<Longrightarrow> (main_pc s = Returned None \<longrightarrow> quiescent s) \<Longrightarrow>
   exec d maxIter callback evs s = Some s' \<Longrightarrow>
   main_pc s' = Returned None \<longrightarrow> quiescent s'"
proof (induction evs arbitrary: s)
  case Nil
  then show ?case by simp
next
  case (Cons e evs)
  from Cons.prems(3) obtain s1 where s1: "step d maxIter callback e s = Some s1"
    "exec d maxIter callback evs s1 = Some s'"
    by (auto split: option.splits)
  from Cons.prems(1) s1(1) have "run_inv d maxIter callback s1" by (rule run_inv_step)
  moreover from Cons.prems(1,2) s1(1) have "main_pc s1 = Returned None \<longrightarrow> quiescent s1"
    by (rule ret_inv_step)
  ultimately show ?case using s1(2) by (rule Cons.IH)
qed

lemma ctx_done_sem_release: "ctx_done (sem_release s) = ctx_done s"
  by (simp add: sem_release_def Let_def)

lemma ctx_done_wg_done: "ctx_done (wg_done s) = ctx_done s"
  by (simp add: wg_done_def Let_def)

lemma no_CtxDone_main_step:
  "main_step d maxIter callback s = Some s' \<Longrightarrow> ctx_done s' = ctx_done s"
  by (cases "main_pc s")
    (auto simp: main_step_def ctx_done_wg_done Let_def split: if_splits option.splits)

lemma no_CtxDone_step:
  assumes "step d maxIter callback e s = Some s'" "e \<noteq> CtxDone"
  shows "ctx_done s' = ctx_done s"
  using assms
  by (cases e)
    (auto simp: step_def ctx_done_sem_release ctx_done_wg_done no_CtxDone_main_step
      split: if_splits)

lemma no_CtxDone_exec:
  "run_inv d maxIter callback s \<Longrightarrow> CtxDone \<notin> set evs \<Longrightarrow>
   exec d maxIter callback evs s = Some s' \<Longrightarrow> ctx_done s' = ctx_done s"
proof (induction evs arbitrary: s)
  case Nil
  then show ?case by simp
next
  case (Cons e evs)
  from Cons.prems(3) obtain s1 where s1: "step d maxIter callback e s = Some s1"
    "exec d maxIter callback evs s1 = Some s'"
    by (auto split: option.splits)
  from Cons.prems(1) s1(1) have inv1: "run_inv d maxIter callback s1" by (rule run_inv_step)
  from Cons.prems(2) have "CtxDone \<notin> set evs" "e \<noteq> CtxDone" by auto
  with Cons.IH[OF inv1 _ s1(2)] no_CtxDone_step[OF s1(1)]
  show ?case by simp
qed

section \<open>Folding the record store and the report\<close>

lemma appendAll_records: "records (appendAll r recs) = records r @ recs"
  unfolding appendAll_def
  by (induction recs arbitrary: r) (simp_all add: appendRecord_def Let_def)

lemma appendAll_numErr:
  "numErr (appendAll r recs) = numErr r + int (length (filter failed recs))"
  unfolding appendAll_def
  by (induction recs arbitrary: r) (simp_all add: appendRecord_def Let_def failed_def)

lemma foldl_collectStep:
  "foldl collectStep rep recs =
     rep\<lparr>Records := Records rep @ filter (\<lambda>r. \<not> failed r) recs,
         Fail := Fail rep + int (length (filter failed recs)),
         Length := Length rep + int (length recs)\<rparr>"
  by (induction recs arbitrary: rep) (simp_all add: collectStep_def Let_def failed_def)

lemma Collect_eq:
  "Collect recs =
     \<lparr>Records = filter (\<lambda>r. \<not> failed r) recs,
      Length = int (length (filter (\<lambda>r. \<not> failed r) recs)),
      Success = 0,
      Fail = int (length (filter failed recs))\<rparr>"
  by (simp add: Collect_def foldl_collectStep emptyReport_def Let_def)

section \<open>What a run returns\<close>

lemma exec_Returned_Do_result:
  assumes "New W = Inr d" "exec d maxIter callback evs (init_run d) = Some s"
    "main_pc s = Returned r"
  shows "r = Do_result d maxIter callback"
proof -
  from reachable_inv[OF assms(1,2)] assms(3)
  have "ctl_ok d maxIter callback (Returned r) (loop_i s) (ctx_done s)"
    by (simp add: run_inv_def ctl_inv_def)
  then show ?thesis
    by (cases r) (simp_all add: ctl_ok_def Do_result_def)
qed

lemma ctl_ok_loop_i_le:
  "ctl_ok d maxIter callback p i c \<Longrightarrow> 0 \<le> maxIter \<Longrightarrow> i \<le> maxIter"
  by (auto simp: ctl_ok_def split: pc.splits option.splits)

lemma reachable_quiescent:
  assumes "New W = Inr d" "exec d maxIter callback evs (init_run d) = Some s"
    "main_pc s = Returned None"
  shows "quiescent s"
proof -
  have "main_pc (init_run d) = Returned None \<longrightarrow> quiescent (init_run d)"
    by (simp add: init_run_def)
  with run_inv_init[OF assms(1)] have "main_pc s = Returned None \<longrightarrow> quiescent s"
    using assms(2) by (rule ret_inv_exec)
  with assms(3) show ?thesis by simp
qed




lemma appendRecord_config: "config (appendRecord r rec) = config r"
  by (simp add: appendRecord_def Let_def)

lemma record_closure_config: "config (fst (record_closure req interval a r)) = config r"
  by (simp add: record_closure_def appendRecord_config Let_def split: sum.splits)

lemma run_attempts_config: "config (run_attempts req interval as r) = config r"
  by (induction as arbitrary: r) (simp_all add: record_closure_config)


section \<open>Evaluating a run on a given sequence of events\<close>

lemmas run_eval = step_def main_step_def validate_def halted_def init_run_def NewWeighted_def
  sem_release_def wg_done_def Let_def


section \<open>The dispatcher: the bound on concurrent callbacks\<close>

text \<open>
  C1. In every run of \<open>Do\<close> on a dispatcher built by \<open>New W\<close>, whatever the
  interleaving, the iteration bound and the callback, every state the run passes through
  has at most \<open>W\<close> callback invocations that have started and not yet returned.
\<close>

theorem Do_concurrency_bound:
  assumes "New W = Inr d" "exec d maxIter callback evs (init_run d) = Some s"
  shows "int (running s) \<le> W \<and> int (started s) - int (completed s) \<le> W"
proof -
  from reachable_inv[OF assms] have "count_inv d s" by (simp add: run_inv_def)
  moreover from assms(1) have "numWorker d = W" by (simp add: New_Inr)
  ultimately show ?thesis
    using holds_unit_bounds(1)[of "main_pc s"]
    by (simp add: count_inv_def started_def completed_def)
qed

text \<open>
  Two workers, three iterations: after both workers of the first two iterations have
  entered the callback, two invocations are running and the caller waits in \<open>Acquire\<close>.
\<close>

theorem Do_concurrency_bound_witness:
  "\<exists>s. New 2 = Inr \<lparr>numWorker = 2, sem = NewWeighted 2\<rparr> \<and>
       exec \<lparr>numWorker = 2, sem = NewWeighted 2\<rparr> 3 (Some ())
         [MainStep, MainStep, MainStep, MainStep, CallbackEnter,
          MainStep, MainStep, MainStep, CallbackEnter, MainStep]
         (init_run \<lparr>numWorker = 2, sem = NewWeighted 2\<rparr>) = Some s \<and>
       running s = 2 \<and> main_pc s = AtAcquire \<and> int (running s) \<le> 2"
proof -
  have new: "New 2 = Inr \<lparr>numWorker = 2, sem = NewWeighted 2\<rparr>"
    by (simp add: New_def)
  obtain s where s: "exec \<lparr>numWorker = 2, sem = NewWeighted 2\<rparr> 3 (Some ())
         [MainStep, MainStep, MainStep, MainStep, CallbackEnter,
          MainStep, MainStep, MainStep, CallbackEnter, MainStep]
         (init_run \<lparr>numWorker = 2, sem = NewWeighted 2\<rparr>) = Some s"
     and r: "running s = 2" "main_pc s = AtAcquire"
    by (simp add: step_def main_step_def validate_def halted_def init_run_def NewWeighted_def)
  from Do_concurrency_bound[OF new s] new s r show ?thesis by blast
qed


section \<open>The dispatcher: the iteration cap\<close>

text \<open>
  C2. Let the dispatcher be built by \<open>New W\<close>, let \<open>1 \<le> M\<close>, \<open>W \<le> M\<close>, the callback be
  non-nil and the context never become done. Then in every run of \<open>Do\<close>: no more than
  \<open>M\<close> callback invocations ever start; when \<open>Do\<close> has returned, it has returned nil,
  exactly \<open>M\<close> invocations have started and all \<open>M\<close> have returned and finished; as long
  as \<open>Do\<close> has not returned, some goroutine can take a step (no deadlock); a run has at
  most \<open>7 M + 4\<close> events; and every run extends to one in which \<open>Do\<close> returns. So \<open>Do\<close>
  returns whenever each callback invocation returns, and only after the \<open>M\<close>-th has.
\<close>

theorem Do_iteration_cap:
  assumes "New W = Inr d" "1 \<le> M" "W \<le> M" "CtxDone \<notin> set evs"
    "exec d M (Some cb) evs (init_run d) = Some s"
  shows "started s \<le> nat M \<and>
    (\<forall>r. main_pc s = Returned r \<longrightarrow>
       r = None \<and> started s = nat M \<and> completed s = nat M \<and> finished s = nat M) \<and>
    (\<not> is_Returned (main_pc s) \<longrightarrow>
       (\<exists>e s'. e \<noteq> CtxDone \<and> step d M (Some cb) e s = Some s')) \<and>
    length evs \<le> 7 * nat M + 4 \<and>
    (\<exists>evs' s'. CtxDone \<notin> set evs' \<and>
       exec d M (Some cb) (evs @ evs') (init_run d) = Some s' \<and> main_pc s' = Returned None)"
proof -
  from assms(1) have W: "numWorker d = W" "1 \<le> W" by (simp_all add: New_Inr)
  with assms(2,3) have val: "validate d M (Some cb) = None"
    by (simp add: validate_None_iff)
  have inv0: "run_inv d M (Some cb) (init_run d)" using assms(1) by (rule run_inv_init)
  have inv: "run_inv d M (Some cb) s" using assms(1,5) by (rule reachable_inv)
  then have ctl: "ctl_ok d M (Some cb) (main_pc s) (loop_i s) (ctx_done s)"
    and cnt: "loop_i s = int (created s)"
    by (auto simp: run_inv_def ctl_inv_def count_inv_def)
  from no_CtxDone_exec[OF inv0 assms(4,5)] have nd: "\<not> ctx_done s"
    by (simp add: init_run_def)
  have ret_None: "r = None" if "main_pc s' = Returned r" "run_inv d M (Some cb) s'" for s' r
    using that val by (cases r) (auto simp: run_inv_def ctl_inv_def ctl_ok_def)
  have a: "started s \<le> nat M"
    using ctl_ok_loop_i_le[OF ctl] assms(2) cnt by (simp add: created_def)
  have b: "r = None \<and> started s = nat M \<and> completed s = nat M \<and> finished s = nat M"
    if r: "main_pc s = Returned r" for r
  proof -
    from r inv have rn: "r = None" by (rule ret_None)
    with r assms(1,5) have "quiescent s" by (intro reachable_quiescent) simp_all
    moreover from ctl r rn nd have "loop_i s = M" by (simp add: ctl_ok_def)
    ultimately show ?thesis using cnt rn
      by (auto simp: quiescent_def created_def started_def completed_def)
  qed
  have c: "\<exists>e s'. e \<noteq> CtxDone \<and> step d M (Some cb) e s = Some s'"
    if "\<not> is_Returned (main_pc s)"
    using progress[OF inv _ that] W by auto
  from fuel_exec[OF inv0 assms(5)] assms(2) have d: "length evs \<le> 7 * nat M + 4"
    by (simp add: fuel_def main_fuel_def init_run_def)
  from can_return[OF _ inv] W obtain evs' s' where e':
    "CtxDone \<notin> set evs'" "exec d M (Some cb) evs' s = Some s'" "is_Returned (main_pc s')"
    by auto
  from inv e'(2) have "run_inv d M (Some cb) s'" by (rule run_inv_exec)
  with e'(3) ret_None have "main_pc s' = Returned None"
    by (cases "main_pc s'") (auto simp: is_Returned_def)
  with e'(1,2) assms(5) have e: "\<exists>evs' s'. CtxDone \<notin> set evs' \<and>
       exec d M (Some cb) (evs @ evs') (init_run d) = Some s' \<and> main_pc s' = Returned None"
    by (intro exI[of _ evs'] exI[of _ s']) (simp add: exec_append)
  from a b c d e show ?thesis by blast
qed

text \<open>
  Two workers, two iterations: both workers start, both callbacks run at the same time,
  both finish, \<open>Do\<close> returns nil.
\<close>

theorem Do_iteration_cap_witness:
  "\<exists>s. exec \<lparr>numWorker = 2, sem = NewWeighted 2\<rparr> 2 (Some ())
         [MainStep, MainStep, MainStep, MainStep, MainStep, MainStep, MainStep,
          CallbackEnter, CallbackEnter, CallbackReturn, SemRelease, WgDone,
          CallbackReturn, SemRelease, WgDone, MainStep, MainStep]
         (init_run \<lparr>numWorker = 2, sem = NewWeighted 2\<rparr>) = Some s \<and>
       main_pc s = Returned None \<and> started s = 2 \<and> completed s = 2 \<and> finished s = 2"
proof -
  have new: "New 2 = Inr \<lparr>numWorker = 2, sem = NewWeighted 2\<rparr>"
    by (simp add: New_def)
  have nc: "CtxDone \<notin> set
         [MainStep, MainStep, MainStep, MainStep, MainStep, MainStep, MainStep,
          CallbackEnter, CallbackEnter, CallbackReturn, SemRelease, WgDone,
          CallbackReturn, SemRelease, WgDone, MainStep, MainStep]"
    by simp
  obtain s where s: "exec \<lparr>numWorker = 2, sem = NewWeighted 2\<rparr> 2 (Some ())
         [MainStep, MainStep, MainStep, MainStep, MainStep, MainStep, MainStep,
          CallbackEnter, CallbackEnter, CallbackReturn, SemRelease, WgDone,
          CallbackReturn, SemRelease, WgDone, MainStep, MainStep]
         (init_run \<lparr>numWorker = 2, sem = NewWeighted 2\<rparr>) = Some s"
     and r: "main_pc s = Returned None"
    by (simp add: run_eval)
  have "(1::int) \<le> 2" "(2::int) \<le> 2" by simp_all
  from Do_iteration_cap[OF new this nc s] r s show ?thesis by auto
qed

section \<open>The dispatcher: the context becomes done\<close>




section \<open>The dispatcher: validation\<close>

text \<open>
  C9. Let the dispatcher be built by \<open>New W\<close> and \<open>1 \<le> M < W\<close>. Whatever the callback,
  the first step of \<open>Do\<close> returns the error \<open>ErrInvalidValue\<close> of the check
  \<open>maxIter < d.numWorker\<close>, and in every state of every run no worker has been created
  and no callback invocation has started: the caller is before \<open>validate\<close> or has
  returned that error.
\<close>

theorem Do_rejects_numWorker_above_maxIter:
  assumes "New W = Inr d" "1 \<le> M" "M < W" "exec d M callback evs (init_run d) = Some s"
  shows "exec d M callback [MainStep] (init_run d) =
      Some ((init_run d)\<lparr>main_pc :=
        Returned (Some (ErrInvalidValue (MaxIterLessThanNumWorker M W)))\<rparr>) \<and>
    created s = 0 \<and> started s = 0 \<and>
    (main_pc s = AtValidate \<or>
     main_pc s = Returned (Some (ErrInvalidValue (MaxIterLessThanNumWorker M W))))"
proof -
  from assms(1) have W: "numWorker d = W" by (simp add: New_Inr)
  with assms(2,3) have val:
    "validate d M callback = Some (ErrInvalidValue (MaxIterLessThanNumWorker M W))"
    by (simp add: validate_def)
  then have a: "exec d M callback [MainStep] (init_run d) =
      Some ((init_run d)\<lparr>main_pc :=
        Returned (Some (ErrInvalidValue (MaxIterLessThanNumWorker M W)))\<rparr>)"
    by (simp add: step_def main_step_def halted_def init_run_def)
  have inv: "run_inv d M callback s" using assms(1,4) by (rule reachable_inv)
  then have ctl: "ctl_ok d M callback (main_pc s) (loop_i s) (ctx_done s)"
    and cnt: "loop_i s = int (created s)"
    by (auto simp: run_inv_def ctl_inv_def count_inv_def)
  from ctl val have "loop_i s = 0 \<and> (main_pc s = AtValidate \<or>
     main_pc s = Returned (Some (ErrInvalidValue (MaxIterLessThanNumWorker M W))))"
    by (auto simp: ctl_ok_def split: pc.splits option.splits)
  with cnt a show ?thesis by (simp add: created_def)
qed

text \<open>The example of the specification: five workers, three iterations.\<close>

theorem Do_rejects_numWorker_above_maxIter_witness:
  "exec \<lparr>numWorker = 5, sem = NewWeighted 5\<rparr> 3 (Some ()) [MainStep]
     (init_run \<lparr>numWorker = 5, sem = NewWeighted 5\<rparr>) =
   Some ((init_run \<lparr>numWorker = 5, sem = NewWeighted 5\<rparr>)\<lparr>main_pc :=
     Returned (Some (ErrInvalidValue (MaxIterLessThanNumWorker 3 5)))\<rparr>) \<and>
   started ((init_run \<lparr>numWorker = 5, sem = NewWeighted 5\<rparr>)\<lparr>main_pc :=
     Returned (Some (ErrInvalidValue (MaxIterLessThanNumWorker 3 5)))\<rparr>) = 0"
proof -
  have new: "New 5 = Inr \<lparr>numWorker = 5, sem = NewWeighted 5\<rparr>"
    by (simp add: New_def)
  have s: "exec \<lparr>numWorker = 5, sem = NewWeighted 5\<rparr> 3 (Some ()) [MainStep]
     (init_run \<lparr>numWorker = 5, sem = NewWeighted 5\<rparr>) =
   Some ((init_run \<lparr>numWorker = 5, sem = NewWeighted 5\<rparr>)\<lparr>main_pc :=
     Returned (Some (ErrInvalidValue (MaxIterLessThanNumWorker 3 5)))\<rparr>)"
    by (simp add: run_eval)
  have "(1::int) \<le> 3" "(3::int) < 5" by simp_all
  from Do_rejects_numWorker_above_maxIter[OF new this s] s show ?thesis by simp
qed

section \<open>The dispatcher: \<open>maxIter = 0\<close>\<close>

text \<open>
  C3. \<open>Do\<close> with \<open>maxIter = 0\<close>, a non-nil callback and at least one worker is to be
  accepted and to run until the context is done; the loop condition
  \<open>i < maxIter || maxIter == 0\<close> of \<open>Do\<close> provides for exactly that. The check
  \<open>maxIter < 1\<close> of \<open>validate\<close> runs before the loop and defeats it: with one worker,
  a non-nil callback and \<open>maxIter = 0\<close>, the first step of \<open>Do\<close> returns
  \<open>ErrInvalidValue\<close>, and no callback invocation has started.
\<close>

theorem Do_maxIter_zero_rejected:
  "New 1 = Inr \<lparr>numWorker = 1, sem = NewWeighted 1\<rparr> \<and>
   validate \<lparr>numWorker = 1, sem = NewWeighted 1\<rparr> 0 (Some ()) =
     Some (ErrInvalidValue (MaxIterLessThanOne 0)) \<and>
   exec \<lparr>numWorker = 1, sem = NewWeighted 1\<rparr> 0 (Some ()) [MainStep]
     (init_run \<lparr>numWorker = 1, sem = NewWeighted 1\<rparr>) =
   Some ((init_run \<lparr>numWorker = 1, sem = NewWeighted 1\<rparr>)\<lparr>main_pc :=
     Returned (Some (ErrInvalidValue (MaxIterLessThanOne 0)))\<rparr>) \<and>
   started ((init_run \<lparr>numWorker = 1, sem = NewWeighted 1\<rparr>)\<lparr>main_pc :=
     Returned (Some (ErrInvalidValue (MaxIterLessThanOne 0)))\<rparr>) = 0"
  by (simp add: New_def run_eval started_def)

section \<open>The closure of one attempt\<close>

text \<open>
  C8 as stated: every attempt, failed or not, appends its Record and then sleeps
  \<open>interval\<close>. When \<open>r.client.Do\<close> fails, the closure appends the failure Record and
  returns: it does not sleep.
\<close>

theorem record_closure_failure_counterexample:
  "record_closure \<lparr>Body = None, GetBody = Inr ''''\<rparr> 5
     \<lparr>client_Do = Inl (TransportError ''connection refused''), since_sent = 0,
      tracer_events = []\<rparr>
     (NewRequester \<lparr>Requests = 1, Concurrency = 1, GlobalTimeout = 0, Interval = 5\<rparr>) =
   (appendRecord (NewRequester \<lparr>Requests = 1, Concurrency = 1, GlobalTimeout = 0, Interval = 5\<rparr>)
      (failure_Record (TransportError ''connection refused'')),
    [Appended (failure_Record (TransportError ''connection refused''))]) \<and>
   Slept 5 \<notin> set [Appended (failure_Record (TransportError ''connection refused''))]"
  by (simp add: record_closure_def cloneRequest_def)

text \<open>
  C8, amended. Every attempt appends exactly one Record to the record store, before any
  other effect. When the clone of the request fails, the closure appends the failure
  Record of \<open>ErrRequestBody\<close> and returns; when the send fails, it appends the failure
  Record of that error and returns; when the reading of the body fails, it appends the
  failure Record of that error, returns and closes the body. In these three cases the
  Record has a non-nil error and the closure does not sleep. When nothing fails, it
  appends the Record of the response, whose error is nil, prints the state and sleeps
  \<open>interval\<close> before it returns and closes the body.
\<close>

theorem record_closure_effects:
  "(cloneRequest req = Inl e1 \<longrightarrow>
      record_closure req interval a r =
        (appendRecord r (failure_Record ErrRequestBody),
         [Appended (failure_Record ErrRequestBody)])) \<and>
   (cloneRequest req = Inr reqClone \<and> client_Do a = Inl e2 \<longrightarrow>
      record_closure req interval a r =
        (appendRecord r (failure_Record e2), [Appended (failure_Record e2)])) \<and>
   (cloneRequest req = Inr reqClone \<and> client_Do a = Inr resp \<and> ReadAll resp = Inl e3 \<longrightarrow>
      record_closure req interval a r =
        (appendRecord r (failure_Record e3), [Appended (failure_Record e3), BodyClosed])) \<and>
   (cloneRequest req = Inr reqClone \<and> client_Do a = Inr resp \<and> ReadAll resp = Inr body \<longrightarrow>
      record_closure req interval a r =
        (appendRecord r
           \<lparr>Time = since_sent a, Code = StatusCode resp, Bytes = int (length body),
            Error = None, Events = tracer_events a\<rparr>,
         [Appended
            \<lparr>Time = since_sent a, Code = StatusCode resp, Bytes = int (length body),
             Error = None, Events = tracer_events a\<rparr>,
          PrintedState, Slept interval, BodyClosed])) \<and>
   (cloneRequest req = Inl e1 \<or> client_Do a = Inl e2 \<or>
    (client_Do a = Inr resp \<and> ReadAll resp = Inl e3) \<longrightarrow>
      (\<forall>t. Slept t \<notin> set (snd (record_closure req interval a r))) \<and>
      (\<exists>err. fst (record_closure req interval a r) = appendRecord r (failure_Record err))) \<and>
   Error (failure_Record err) = Some err"
proof -
  have c1: "record_closure req interval a r =
        (appendRecord r (failure_Record ErrRequestBody),
         [Appended (failure_Record ErrRequestBody)])"
    if "cloneRequest req = Inl e1"
    using that by (simp add: record_closure_def)
  have c2: "record_closure req interval a r =
        (appendRecord r (failure_Record e2), [Appended (failure_Record e2)])"
    if "cloneRequest req = Inr reqClone \<and> client_Do a = Inl e2"
    using that by (simp add: record_closure_def)
  have c3: "record_closure req interval a r =
        (appendRecord r (failure_Record e3), [Appended (failure_Record e3), BodyClosed])"
    if "cloneRequest req = Inr reqClone \<and> client_Do a = Inr resp \<and> ReadAll resp = Inl e3"
    using that by (simp add: record_closure_def)
  have c4: "record_closure req interval a r =
        (appendRecord r
           \<lparr>Time = since_sent a, Code = StatusCode resp, Bytes = int (length body),
            Error = None, Events = tracer_events a\<rparr>,
         [Appended
            \<lparr>Time = since_sent a, Code = StatusCode resp, Bytes = int (length body),
             Error = None, Events = tracer_events a\<rparr>,
          PrintedState, Slept interval, BodyClosed])"
    if "cloneRequest req = Inr reqClone \<and> client_Do a = Inr resp \<and> ReadAll resp = Inr body"
    using that by (simp add: record_closure_def Let_def)
  have c5: "(\<forall>t. Slept t \<notin> set (snd (record_closure req interval a r))) \<and>
      (\<exists>err. fst (record_closure req interval a r) = appendRecord r (failure_Record err))"
    if "cloneRequest req = Inl e1 \<or> client_Do a = Inl e2 \<or>
        (client_Do a = Inr resp \<and> ReadAll resp = Inl e3)"
  proof (cases "cloneRequest req")
    case (Inl x)
    then show ?thesis by (auto simp: record_closure_def)
  next
    case (Inr y)
    with that show ?thesis by (auto simp: record_closure_def)
  qed
  have c6: "Error (failure_Record err) = Some err"
    by (simp add: failure_Record_def)
  from c1 c2 c3 c4 c5 c6 show ?thesis by blast
qed

text \<open>
  A successful attempt with interval 5, and an attempt whose body cannot be read.
\<close>

theorem record_closure_effects_witness:
  "record_closure \<lparr>Body = None, GetBody = Inr ''''\<rparr> 5
     \<lparr>client_Do = Inr \<lparr>StatusCode = 200, ReadAll = Inr ''ok''\<rparr>, since_sent = 9,
      tracer_events = []\<rparr>
     (NewRequester \<lparr>Requests = 1, Concurrency = 1, GlobalTimeout = 0, Interval = 5\<rparr>) =
   (appendRecord
      (NewRequester \<lparr>Requests = 1, Concurrency = 1, GlobalTimeout = 0, Interval = 5\<rparr>)
      \<lparr>Time = 9, Code = 200, Bytes = 2, Error = None, Events = []\<rparr>,
    [Appended \<lparr>Time = 9, Code = 200, Bytes = 2, Error = None, Events = []\<rparr>,
     PrintedState, Slept 5, BodyClosed]) \<and>
   record_closure \<lparr>Body = None, GetBody = Inr ''''\<rparr> 5
     \<lparr>client_Do = Inr \<lparr>StatusCode = 200, ReadAll = Inl (TransportError ''eof'')\<rparr>,
      since_sent = 9, tracer_events = []\<rparr>
     (NewRequester \<lparr>Requests = 1, Concurrency = 1, GlobalTimeout = 0, Interval = 5\<rparr>) =
   (appendRecord
      (NewRequester \<lparr>Requests = 1, Concurrency = 1, GlobalTimeout = 0, Interval = 5\<rparr>)
      (failure_Record (TransportError ''eof'')),
    [Appended (failure_Record (TransportError ''eof'')), BodyClosed])"
  using
    record_closure_effects
      [where req = "\<lparr>Body = None, GetBody = Inr ''''\<rparr>" and interval = 5
         and a = "\<lparr>client_Do = Inr \<lparr>StatusCode = 200, ReadAll = Inr ''ok''\<rparr>,
                   since_sent = 9, tracer_events = []\<rparr>"
         and r = "NewRequester \<lparr>Requests = 1, Concurrency = 1, GlobalTimeout = 0,
                   Interval = 5\<rparr>"
         and reqClone = "\<lparr>Body = None, GetBody = Inr ''''\<rparr>"
         and resp = "\<lparr>StatusCode = 200, ReadAll = Inr ''ok''\<rparr>" and body = "''ok''"]
    record_closure_effects
      [where req = "\<lparr>Body = None, GetBody = Inr ''''\<rparr>" and interval = 5
         and a = "\<lparr>client_Do = Inr \<lparr>StatusCode = 200,
                   ReadAll = Inl (TransportError ''eof'')\<rparr>,
                   since_sent = 9, tracer_events = []\<rparr>"
         and r = "NewRequester \<lparr>Requests = 1, Concurrency = 1, GlobalTimeout = 0,
                   Interval = 5\<rparr>"
         and reqClone = "\<lparr>Body = None, GetBody = Inr ''''\<rparr>"
         and resp = "\<lparr>StatusCode = 200, ReadAll = Inl (TransportError ''eof'')\<rparr>"
         and ?e3.0 = "TransportError ''eof''"]
  by (simp add: cloneRequest_def)

section \<open>The errors of \<open>Run\<close>\<close>

text \<open>
  C5 as stated: \<open>Run\<close> returns a non-nil error only for a connectivity failure or a
  validation failure of the dispatcher. When \<open>r.config.HTTPRequest()\<close> fails, \<open>Run\<close>
  returns \<open>ErrRequest\<close>, which is neither.
\<close>

theorem Run_request_failure_counterexample:
  "Run (NewRequester \<lparr>Requests = 1, Concurrency = 1, GlobalTimeout = 0, Interval = 0\<rparr>)
     \<lparr>HTTPRequest = Inl ''empty url'', ping = None, attempts = []\<rparr> =
   Returns ZeroReport (Some (ErrRequest ''empty url'')) \<and>
   \<not> is_connectivity_failure (ErrRequest ''empty url'') \<and>
   \<not> is_validation_failure (ErrRequest ''empty url'')"
  by (simp add: Run_def is_connectivity_failure_def is_validation_failure_def)

text \<open>
  C5, amended. \<open>Run\<close> returns a non-nil error only for a failure to build the request
  (\<open>ErrRequest\<close>), a failure of the pre-flight (\<open>ErrConnection\<close>) or a validation failure
  of the dispatcher (\<open>ErrInvalidValue\<close>), each with the zero Report. The first two
  arise exactly when the request cannot be built, respectively when the pre-flight fails;
  the third when \<open>Concurrency \<ge> 1\<close> and \<open>Requests\<close> is below 1 or below
  \<open>Concurrency\<close>. With \<open>Concurrency < 1\<close> the constructor of the dispatcher panics. In
  every other case, whatever the outcomes of the attempts, \<open>Run\<close> returns the Report made
  from the record store, with a nil error.
\<close>

theorem Run_error_classes:
  "(Run r env = Returns rep (Some err) \<longrightarrow>
      rep = ZeroReport \<and>
      (is_request_failure err \<or> is_connectivity_failure err \<or> is_validation_failure err)) \<and>
   (HTTPRequest env = Inl msg \<longrightarrow> Run r env = Returns ZeroReport (Some (ErrRequest msg))) \<and>
   (HTTPRequest env = Inr req \<and> ping env = Some msg \<longrightarrow>
      Run r env = Returns ZeroReport (Some (ErrConnection msg))) \<and>
   (HTTPRequest env = Inr req \<and> ping env = None \<and> 1 \<le> Concurrency (config r) \<and>
    (Requests (config r) < 1 \<or> Requests (config r) < Concurrency (config r)) \<longrightarrow>
      (\<exists>v. Run r env = Returns ZeroReport (Some (ErrInvalidValue v)))) \<and>
   (HTTPRequest env = Inr req \<and> ping env = None \<and> Concurrency (config r) < 1 \<longrightarrow>
      Run r env = Panics (InvalidNumWorker (Concurrency (config r)))) \<and>
   (HTTPRequest env = Inr req \<and> ping env = None \<and> 1 \<le> Concurrency (config r) \<and>
    Concurrency (config r) \<le> Requests (config r) \<longrightarrow>
      Run r env =
        Returns (MakeReport (config r)
                   (records (run_attempts req (Interval (config r)) (attempts env) r))
                   (numErr (run_attempts req (Interval (config r)) (attempts env) r)))
                None)"
proof -
  have a: "rep = ZeroReport \<and>
      (is_request_failure err \<or> is_connectivity_failure err \<or> is_validation_failure err)"
    if "Run r env = Returns rep (Some err)"
    using that
    by (auto simp: Run_def New_def Do_result_def validate_def Let_def is_request_failure_def
        is_connectivity_failure_def is_validation_failure_def
        split: sum.splits option.splits if_splits)
  have b: "Run r env = Returns ZeroReport (Some (ErrRequest msg))" if "HTTPRequest env = Inl msg"
    using that by (simp add: Run_def)
  have c: "Run r env = Returns ZeroReport (Some (ErrConnection msg))"
    if "HTTPRequest env = Inr req \<and> ping env = Some msg"
    using that by (simp add: Run_def)
  have d: "\<exists>v. Run r env = Returns ZeroReport (Some (ErrInvalidValue v))"
    if "HTTPRequest env = Inr req \<and> ping env = None \<and> 1 \<le> Concurrency (config r) \<and>
      (Requests (config r) < 1 \<or> Requests (config r) < Concurrency (config r))"
    using that by (auto simp: Run_def New_def Do_result_def validate_def Let_def)
  have e: "Run r env =
        Returns (MakeReport (config r)
                   (records (run_attempts req (Interval (config r)) (attempts env) r))
                   (numErr (run_attempts req (Interval (config r)) (attempts env) r)))
                None"
    if "HTTPRequest env = Inr req \<and> ping env = None \<and> 1 \<le> Concurrency (config r) \<and>
      Concurrency (config r) \<le> Requests (config r)"
    using that
    by (simp add: Run_def New_def Do_result_def validate_def Let_def run_attempts_config)
  have f: "Run r env = Panics (InvalidNumWorker (Concurrency (config r)))"
    if "HTTPRequest env = Inr req \<and> ping env = None \<and> Concurrency (config r) < 1"
    using that by (simp add: Run_def New_def)
  from a b c d e f show ?thesis by blast
qed

text \<open>
  A run with one worker and two requests whose second attempt fails: the Report holds
  both Records and one error, and the error of \<open>Run\<close> is nil.
\<close>

theorem Run_error_classes_witness:
  "Run (NewRequester \<lparr>Requests = 2, Concurrency = 1, GlobalTimeout = 0, Interval = 0\<rparr>)
     \<lparr>HTTPRequest = Inr \<lparr>Body = None, GetBody = Inr ''''\<rparr>, ping = None,
      attempts =
        [\<lparr>client_Do = Inr \<lparr>StatusCode = 200, ReadAll = Inr ''ok''\<rparr>, since_sent = 9,
          tracer_events = []\<rparr>,
         \<lparr>client_Do = Inl (TransportError ''reset''), since_sent = 0,
          tracer_events = []\<rparr>]\<rparr> =
   Returns (MakeReport \<lparr>Requests = 2, Concurrency = 1, GlobalTimeout = 0, Interval = 0\<rparr>
      [\<lparr>Time = 9, Code = 200, Bytes = 2, Error = None, Events = []\<rparr>,
       failure_Record (TransportError ''reset'')] 1) None"
  using Run_error_classes
    [of "NewRequester \<lparr>Requests = 2, Concurrency = 1, GlobalTimeout = 0, Interval = 0\<rparr>"
        "\<lparr>HTTPRequest = Inr \<lparr>Body = None, GetBody = Inr ''''\<rparr>, ping = None,
          attempts =
            [\<lparr>client_Do = Inr \<lparr>StatusCode = 200, ReadAll = Inr ''ok''\<rparr>, since_sent = 9,
              tracer_events = []\<rparr>,
             \<lparr>client_Do = Inl (TransportError ''reset''), since_sent = 0,
              tracer_events = []\<rparr>]\<rparr>"
        _ _ _ "\<lparr>Body = None, GetBody = Inr ''''\<rparr>"]
  by (simp add: NewRequester_def record_closure_def cloneRequest_def appendRecord_def
      failure_Record_def Let_def)

section \<open>The record store\<close>

text \<open>
  C6. After any sequence of \<open>appendRecord\<close> calls on a fresh Requester, \<open>numErr\<close> is the
  number of appended Records whose \<open>Error\<close> is non-nil, and \<open>records\<close> holds exactly the
  appended Records, so that its length is the number of appends. (\<open>numErr\<close> is a Go
  \<open>int\<close>; it cannot wrap before 2 to the power 63 appends.)
\<close>

theorem appendRecord_invariant:
  "numErr (appendAll (NewRequester cfg) recs) = int (length (filter failed recs)) \<and>
   records (appendAll (NewRequester cfg) recs) = recs \<and>
   length (records (appendAll (NewRequester cfg) recs)) = length recs"
  by (simp add: appendAll_records appendAll_numErr NewRequester_def)

theorem appendRecord_invariant_witness:
  "numErr (appendAll (NewRequester \<lparr>Requests = 3, Concurrency = 1, GlobalTimeout = 0, Interval = 0\<rparr>)
      [failure_Record Canceled,
       \<lparr>Time = 7, Code = 200, Bytes = 2, Error = None, Events = []\<rparr>,
       failure_Record ErrRequestBody]) = 2 \<and>
   length (records (appendAll (NewRequester \<lparr>Requests = 3, Concurrency = 1, GlobalTimeout = 0, Interval = 0\<rparr>)
      [failure_Record Canceled,
       \<lparr>Time = 7, Code = 200, Bytes = 2, Error = None, Events = []\<rparr>,
       failure_Record ErrRequestBody])) = 3"
  using appendRecord_invariant
    [of "\<lparr>Requests = 3, Concurrency = 1, GlobalTimeout = 0, Interval = 0\<rparr>"
        "[failure_Record Canceled,
          \<lparr>Time = 7, Code = 200, Bytes = 2, Error = None, Events = []\<rparr>,
          failure_Record ErrRequestBody]"]
  by (simp add: failed_def failure_Record_def)

section \<open>The report builder \<open>Collect\<close>\<close>

text \<open>
  C7 asks that the Report of \<open>Collect\<close> satisfy \<open>Length = Success + Fail\<close> and that
  \<open>Length\<close> be the number of records collected. \<open>Collect\<close> counts every record in
  \<open>Length\<close> inside the loop, then overwrites \<open>Length\<close> with the number of successful
  records, and never assigns \<open>Success\<close>. On one failed record it returns \<open>Length = 0\<close>,
  \<open>Success = 0\<close>, \<open>Fail = 1\<close>.
\<close>

theorem Collect_failing_input:
  "Collect [failure_Record (TransportError ''connection refused'')] =
     \<lparr>Records = [], Length = 0, Success = 0, Fail = 1\<rparr> \<and>
   Length (Collect [failure_Record (TransportError ''connection refused'')]) \<noteq>
     Success (Collect [failure_Record (TransportError ''connection refused'')]) +
     Fail (Collect [failure_Record (TransportError ''connection refused'')]) \<and>
   Length (Collect [failure_Record (TransportError ''connection refused'')]) \<noteq>
     int (length [failure_Record (TransportError ''connection refused'')])"
  by (simp add: Collect_eq failed_def failure_Record_def)

section \<open>The constructor \<open>New\<close>\<close>

text \<open>
  C10. \<open>New numWorker\<close> panics for every \<open>numWorker < 1\<close>, so that no dispatcher exists
  on which \<open>Do\<close> could report the invalid worker count as an error; for every
  \<open>numWorker \<ge> 1\<close> it returns the dispatcher with that worker count and a semaphore of
  that size, none of whose units is held.
\<close>

theorem New_panics_iff:
  "(n < 1 \<longrightarrow> New n = Inl (InvalidNumWorker n) \<and> (\<forall>d. New n \<noteq> Inr d)) \<and>
   (1 \<le> n \<longrightarrow> New n = Inr \<lparr>numWorker = n, sem = \<lparr>sem_size = n, sem_cur = 0\<rparr>\<rparr>)"
  by (simp add: New_def NewWeighted_def)

theorem New_panics_iff_witness:
  "New 0 = Inl (InvalidNumWorker 0) \<and> New (- 3) = Inl (InvalidNumWorker (- 3)) \<and>
   New 1 = Inr \<lparr>numWorker = 1, sem = \<lparr>sem_size = 1, sem_cur = 0\<rparr>\<rparr>"
  using New_panics_iff [of 0] New_panics_iff [of "- 3"] New_panics_iff [of 1]
  by simp

end
